theory Spec2Isabelle
  imports Main "HOL-Library.Sublist" "HOL-Library.Multiset"
begin

section \<open>The documentation mirror script \<^verbatim>\<open>scripts/update-docs.js\<close>\<close>

text \<open>
  A shallow embedding of the script. JavaScript strings are sequences of UTF-16 code units;
  the model uses \<^typ>\<open>string\<close> and reads a \<^typ>\<open>char\<close> as the code unit of the same
  number, so it covers the strings whose code units lie in U+0000..U+00FF.
  The progress banners written with \<^verbatim>\<open>console.log\<close> change no value the script computes
  and are left out; the two per-document console lines are kept.
\<close>

subsection \<open>Configuration\<close>

definition SITEMAP_URL :: string where
  "SITEMAP_URL = ''https://docs.anthropic.com/sitemap.xml''"

definition NAV_PAGE_URL :: string where
  "NAV_PAGE_URL = ''https://docs.anthropic.com/en/docs/claude-code/overview''"

definition URL_PREFIX :: string where
  "URL_PREFIX = ''https://docs.anthropic.com/en/docs/claude-code/''"

definition BASE_URL :: string where
  "BASE_URL = ''https://docs.anthropic.com''"

definition DOCS_DIR :: string where
  "DOCS_DIR = ''docs''"

definition ROOT_README_PATH :: string where
  "ROOT_README_PATH = ''README.md''"

subsection \<open>Strings\<close>

text \<open>
  \<^verbatim>\<open>\s\<close> and \<^verbatim>\<open>String.prototype.trim\<close> use the same class of code units: below U+0100
  these are TAB, LF, VT, FF, CR, SPACE and NO-BREAK SPACE.
\<close>

definition is_space :: "char \<Rightarrow> bool" where
  "is_space c = (of_char c \<in> {9, 10, 11, 12, 13, 32, 160 :: nat})"

text \<open>
  \<^verbatim>\<open>toLowerCase\<close>: below U+0100 the code units with a lower-case mapping are A..Z and
  U+00C0..U+00DE without the multiplication sign U+00D7; each maps to the unit 32 above.
\<close>

definition is_upper :: "char \<Rightarrow> bool" where
  "is_upper c =
     (let n = (of_char c :: nat)
      in (65 \<le> n \<and> n \<le> 90) \<or> (192 \<le> n \<and> n \<le> 222 \<and> n \<noteq> 215))"

definition toLowerCase_char :: "char \<Rightarrow> char" where
  "toLowerCase_char c = (if is_upper c then char_of (of_char c + (32 :: nat)) else c)"

definition toLowerCase :: "string \<Rightarrow> string" where
  "toLowerCase text = map toLowerCase_char text"

text \<open>\<^verbatim>\<open>.replace(/\s+/g, '-')\<close>: scanning from the left, each match is a whole run.\<close>

function replace_spaces :: "string \<Rightarrow> string" where
  "replace_spaces [] = []"
| "replace_spaces (c # cs) =
     (if is_space c then CHR ''-'' # replace_spaces (dropWhile is_space cs)
      else c # replace_spaces cs)"
  by pat_completeness auto
termination
  by (relation "measure length") (auto simp: less_Suc_eq_le length_dropWhile_le)

text \<open>The character class \<^verbatim>\<open>[a-z0-9-]\<close>.\<close>

definition slug_char :: "char \<Rightarrow> bool" where
  "slug_char c =
     (let n = (of_char c :: nat)
      in (97 \<le> n \<and> n \<le> 122) \<or> (48 \<le> n \<and> n \<le> 57) \<or> n = 45)"

text \<open>\<^verbatim>\<open>.replace(/[^a-z0-9-]/g, '')\<close>.\<close>

definition remove_non_slug :: "string \<Rightarrow> string" where
  "remove_non_slug text = filter slug_char text"

definition slugify :: "string \<Rightarrow> string" where
  "slugify text = remove_non_slug (replace_spaces (toLowerCase text))"

text \<open>
  The slug as the specification words it, one code unit at a time: a white-space unit
  yields a hyphen when it opens a run (the unit before it, if any, is not white space)
  and nothing otherwise; any other unit is lower-cased and kept when it lies in
  \<^verbatim>\<open>[a-z0-9-]\<close>. The first argument tells whether the previous unit was white space.
\<close>

fun slug_units :: "bool \<Rightarrow> string \<Rightarrow> string" where
  "slug_units prev [] = []"
| "slug_units prev (c # cs) =
     (if is_space (toLowerCase_char c)
      then (if prev then [] else ''-'') @ slug_units True cs
      else (if slug_char (toLowerCase_char c) then [toLowerCase_char c] else [])
             @ slug_units False cs)"

definition slug_spec :: "string \<Rightarrow> string" where
  "slug_spec text = slug_units False text"

text \<open>\<^verbatim>\<open>String.prototype.trim\<close> and \<^verbatim>\<open>String.prototype.startsWith\<close>.\<close>

definition trim :: "string \<Rightarrow> string" where
  "trim s = rev (dropWhile is_space (rev (dropWhile is_space s)))"

fun startsWith :: "string \<Rightarrow> string \<Rightarrow> bool" where
  "startsWith s [] = True"
| "startsWith [] (p # ps) = False"
| "startsWith (c # cs) (p # ps) = (c = p \<and> startsWith cs ps)"

subsection \<open>Node's \<^verbatim>\<open>path\<close> module (POSIX)\<close>

text \<open>
  \<^verbatim>\<open>path.basename(p)\<close>: trailing slashes are ignored, and the result is what follows the
  last remaining slash.
\<close>

definition basename :: "string \<Rightarrow> string" where
  "basename p =
     rev (takeWhile (\<lambda>c. c \<noteq> CHR ''/'') (dropWhile (\<lambda>c. c = CHR ''/'') (rev p)))"

text \<open>The segments of a path between its slashes.\<close>

fun split_slash :: "string \<Rightarrow> string list" where
  "split_slash [] = [[]]"
| "split_slash (c # cs) =
     (if c = CHR ''/'' then [] # split_slash cs
      else (case split_slash cs of [] \<Rightarrow> [[c]] | s # ss \<Rightarrow> (c # s) # ss))"

fun join_slash :: "string list \<Rightarrow> string" where
  "join_slash [] = []"
| "join_slash [s] = s"
| "join_slash (s # t # ss) = s @ ''/'' @ join_slash (t # ss)"

text \<open>
  \<^verbatim>\<open>normalizeString\<close>: the kept segments are a stack (its top first). Empty and \<^verbatim>\<open>.\<close>
  segments are dropped; \<^verbatim>\<open>..\<close> removes the segment before it, and stays when there is
  none to remove and the path is relative.
\<close>

fun normalize_segments :: "bool \<Rightarrow> string list \<Rightarrow> string list \<Rightarrow> string list" where
  "normalize_segments allowAboveRoot stack [] = rev stack"
| "normalize_segments allowAboveRoot stack (s # ss) =
     (if s = [] \<or> s = ''.'' then normalize_segments allowAboveRoot stack ss
      else if s = ''..'' then
        (case stack of
           [] \<Rightarrow> normalize_segments allowAboveRoot (if allowAboveRoot then [''..''] else []) ss
         | t # ts \<Rightarrow>
             if t = ''..'' then normalize_segments allowAboveRoot (''..'' # stack) ss
             else normalize_segments allowAboveRoot ts ss)
      else normalize_segments allowAboveRoot (s # stack) ss)"

definition normalize :: "string \<Rightarrow> string" where
  "normalize p =
     (if p = [] then ''.''
      else
        let isAbsolute = (hd p = CHR ''/'');
            trailingSeparator = (last p = CHR ''/'');
            q = join_slash (normalize_segments (\<not> isAbsolute) [] (split_slash p))
        in if q = [] then (if isAbsolute then ''/'' else if trailingSeparator then ''./'' else ''.'')
           else (if isAbsolute then ''/'' else []) @ q @ (if trailingSeparator then ''/'' else []))"

text \<open>\<^verbatim>\<open>path.join(a, b)\<close>: the non-empty arguments joined by a slash, then normalised.\<close>

definition path_join :: "string \<Rightarrow> string \<Rightarrow> string" where
  "path_join a b =
     (let joined = (if a = [] then b else if b = [] then a else a @ ''/'' @ b)
      in if joined = [] then ''.'' else normalize joined)"

subsection \<open>Data model\<close>

text \<open>
  The objects the script builds. A file of a category is \<^verbatim>\<open>{slug, title, href}\<close>, a
  category is \<^verbatim>\<open>{title, slug, files}\<close>, an entry of \<^verbatim>\<open>otherFiles\<close> is \<^verbatim>\<open>{slug, title}\<close>.
\<close>

record FileRef =
  file_slug :: string
  file_title :: string
  file_href :: string

record Category =
  cat_title :: string
  cat_slug :: string
  cat_files :: "FileRef list"

record OtherFile =
  other_slug :: string
  other_title :: string

text \<open>
  A thrown value: a \<^verbatim>\<open>TypeError\<close> of the script's own property accesses, or the rejection
  of a call to the network or the file system, with its \<^verbatim>\<open>message\<close>.
\<close>

datatype error = TypeError | Rejected string

text \<open>
  What \<^verbatim>\<open>xml2js\<close> returns for the sitemap. A child element is an array of values; a value
  is a string, or an object when the element has attributes or children. \<^verbatim>\<open>url.loc\<close> is
  \<^verbatim>\<open>undefined\<close> when there is no \<^verbatim>\<open>loc\<close> child (the empty list here), and so is
  \<^verbatim>\<open>result.urlset.url\<close> when there is no \<^verbatim>\<open>url\<close> child (\<open>None\<close> here).
\<close>

datatype xml_value = XText string | XObject

record url_entry =
  loc :: "xml_value list"

type_synonym sitemap = "url_entry list option"

text \<open>
  What the two \<^verbatim>\<open>cheerio\<close> selections see of the navigation page: for each
  \<^verbatim>\<open>#navigation-items > div\<close>, the texts of its \<^verbatim>\<open>h5#sidebar-title\<close> elements and its
  \<^verbatim>\<open>ul#sidebar-group li a\<close> elements, each with its \<^verbatim>\<open>href\<close> attribute (if any) and text.
\<close>

record anchor =
  a_href :: "string option"
  a_text :: string

record sidebar_div =
  sidebar_titles :: "string list"
  sidebar_anchors :: "anchor list"

subsection \<open>The world outside the script\<close>

text \<open>
  The file system is a map from paths to contents, and every call the script issues is
  recorded in a trace. The environment answers each call by its argument: \<open>Some msg\<close>
  (for the file system) and \<open>Inl msg\<close> (for the network) are rejections with that message.
  A rejected \<^verbatim>\<open>rm\<close> or write is taken to be rejected before it has changed any file.
  The downloads of one run advance in an order the script does not control, while the
  script awaits something: \<open>during_mkdir i\<close> holds the choices that fix their steps
  while the \<open>i\<close>-th \<^verbatim>\<open>mkdir\<close> of the loop is awaited, and \<open>completion\<close> those while
  \<^verbatim>\<open>Promise.all\<close> is awaited.
\<close>

type_synonym path = string

datatype event =
    Rm path
  | Mkdir path
  | HttpGet string
  | WriteFile path string
  | ConsoleLog string
  | ConsoleError string

record world =
  files :: "path \<rightharpoonup> string"
  trace :: "event list"

record env =
  fs_rm :: "path \<Rightarrow> string option"
  fs_mkdir :: "path \<Rightarrow> string option"
  fs_writeFile :: "path \<Rightarrow> string option"
  get_sitemap :: "string + sitemap"
  get_nav :: "string + sidebar_div list"
  get_doc :: "string \<Rightarrow> string + string"
  now :: string
  during_mkdir :: "nat \<Rightarrow> nat list"
  completion :: "nat list"

definition emit :: "event list \<Rightarrow> world \<Rightarrow> world" where
  "emit es w = w\<lparr>trace := trace w @ es\<rparr>"

subsection \<open>\<^verbatim>\<open>cleanPreviousBuild\<close>\<close>

text \<open>A recursive \<^verbatim>\<open>fs.rm\<close> of a directory removes every file below it.\<close>

definition rm_tree :: "path \<Rightarrow> (path \<rightharpoonup> string) \<Rightarrow> (path \<rightharpoonup> string)" where
  "rm_tree d fs = (\<lambda>p. if p = d \<or> startsWith p (d @ ''/'') then None else fs p)"

definition cleanPreviousBuild :: "env \<Rightarrow> world \<Rightarrow> (error + unit) \<times> world" where
  "cleanPreviousBuild e w =
     (case fs_rm e DOCS_DIR of
        Some msg \<Rightarrow> (Inl (Rejected msg), emit [Rm DOCS_DIR] w)
      | None \<Rightarrow>
          let w1 = emit [Rm DOCS_DIR] (w\<lparr>files := rm_tree DOCS_DIR (files w)\<rparr>) in
          (case fs_rm e ROOT_README_PATH of
             Some msg \<Rightarrow> (Inl (Rejected msg), emit [Rm ROOT_README_PATH] w1)
           | None \<Rightarrow>
               let w2 = emit [Rm ROOT_README_PATH]
                          (w1\<lparr>files := (files w1)(ROOT_README_PATH := None)\<rparr>) in
               (case fs_mkdir e DOCS_DIR of
                  Some msg \<Rightarrow> (Inl (Rejected msg), emit [Mkdir DOCS_DIR] w2)
                | None \<Rightarrow> (Inr (), emit [Mkdir DOCS_DIR] w2))))"

subsection \<open>\<^verbatim>\<open>fetchAllUrlsFromSitemap\<close>\<close>

text \<open>\<^verbatim>\<open>url.loc[0]\<close>: reading index 0 of \<^verbatim>\<open>undefined\<close> throws.\<close>

definition loc0 :: "url_entry \<Rightarrow> error + xml_value" where
  "loc0 url = (case loc url of [] \<Rightarrow> Inl TypeError | v # _ \<Rightarrow> Inr v)"

text \<open>\<^verbatim>\<open>Array.prototype.map\<close> and \<^verbatim>\<open>filter\<close> with a callback that may throw.\<close>

fun map_throwing :: "('a \<Rightarrow> error + 'b) \<Rightarrow> 'a list \<Rightarrow> error + 'b list" where
  "map_throwing f [] = Inr []"
| "map_throwing f (x # xs) =
     (case f x of
        Inl err \<Rightarrow> Inl err
      | Inr y \<Rightarrow> (case map_throwing f xs of Inl err \<Rightarrow> Inl err | Inr ys \<Rightarrow> Inr (y # ys)))"

fun filter_throwing :: "('a \<Rightarrow> error + bool) \<Rightarrow> 'a list \<Rightarrow> error + 'a list" where
  "filter_throwing f [] = Inr []"
| "filter_throwing f (x # xs) =
     (case f x of
        Inl err \<Rightarrow> Inl err
      | Inr b \<Rightarrow>
          (case filter_throwing f xs of
             Inl err \<Rightarrow> Inl err
           | Inr ys \<Rightarrow> Inr (if b then x # ys else ys)))"

text \<open>\<^verbatim>\<open>url.startsWith(URL_PREFIX)\<close>: an object has no such method.\<close>

definition has_prefix :: "xml_value \<Rightarrow> error + bool" where
  "has_prefix v = (case v of XText s \<Rightarrow> Inr (startsWith s URL_PREFIX) | XObject \<Rightarrow> Inl TypeError)"

definition text_of :: "xml_value \<Rightarrow> string" where
  "text_of v = (case v of XText s \<Rightarrow> s | XObject \<Rightarrow> [])"

definition claude_urls :: "sitemap \<Rightarrow> error + string list" where
  "claude_urls result =
     (case result of
        None \<Rightarrow> Inl TypeError
      | Some urls \<Rightarrow>
          (case map_throwing loc0 urls of
             Inl err \<Rightarrow> Inl err
           | Inr allUrls \<Rightarrow>
               (case filter_throwing has_prefix allUrls of
                  Inl err \<Rightarrow> Inl err
                | Inr claudeUrls \<Rightarrow> Inr (map text_of claudeUrls))))"

definition fetchAllUrlsFromSitemap :: "env \<Rightarrow> world \<Rightarrow> (error + string list) \<times> world" where
  "fetchAllUrlsFromSitemap e w =
     (case get_sitemap e of
        Inl msg \<Rightarrow> (Inl (Rejected msg), emit [HttpGet SITEMAP_URL] w)
      | Inr result \<Rightarrow> (claude_urls result, emit [HttpGet SITEMAP_URL] w))"

subsection \<open>\<^verbatim>\<open>fetchNavigationStructure\<close>\<close>

text \<open>The inner \<^verbatim>\<open>each\<close>: one link is pushed when its \<^verbatim>\<open>href\<close> is present and not empty.\<close>

definition push_anchor :: "FileRef list \<Rightarrow> anchor \<Rightarrow> FileRef list" where
  "push_anchor fs a =
     (case a_href a of
        None \<Rightarrow> fs
      | Some href \<Rightarrow>
          if href = [] then fs
          else fs @ [\<lparr>file_slug = basename href, file_title = trim (a_text a),
                      file_href = BASE_URL @ href\<rparr>])"

text \<open>The outer \<^verbatim>\<open>each\<close>: a group whose trimmed title is empty returns early.\<close>

definition push_div :: "Category list \<Rightarrow> sidebar_div \<Rightarrow> Category list" where
  "push_div structure d =
     (let categoryTitle = trim (concat (sidebar_titles d))
      in if categoryTitle = [] then structure
         else structure @
           [\<lparr>cat_title = categoryTitle, cat_slug = slugify categoryTitle,
             cat_files = foldl push_anchor [] (sidebar_anchors d)\<rparr>])"

definition navigation_structure :: "sidebar_div list \<Rightarrow> Category list" where
  "navigation_structure divs = foldl push_div [] divs"

definition fetchNavigationStructure :: "env \<Rightarrow> world \<Rightarrow> (error + Category list) \<times> world" where
  "fetchNavigationStructure e w =
     (case get_nav e of
        Inl msg \<Rightarrow> (Inl (Rejected msg), emit [HttpGet NAV_PAGE_URL] w)
      | Inr divs \<Rightarrow> (Inr (navigation_structure divs), emit [HttpGet NAV_PAGE_URL] w))"

subsection \<open>\<^verbatim>\<open>downloadAndSaveDocs\<close>\<close>

text \<open>
  The inner loop over the categories: \<^verbatim>\<open>categorySlug\<close> stays \<^verbatim>\<open>null\<close> (\<open>None\<close>) or becomes
  the slug of the first category with a file of that \<^verbatim>\<open>href\<close>, where the loop breaks.
\<close>

fun find_category :: "Category list \<Rightarrow> string \<Rightarrow> string option" where
  "find_category [] url = None"
| "find_category (category # rest) url =
     (if list_ex (\<lambda>file. file_href file = url) (cat_files category)
      then Some (cat_slug category)
      else find_category rest url)"

text \<open>\<^verbatim>\<open>!categorySlug\<close>: \<^verbatim>\<open>null\<close> and the empty string are falsy.\<close>

definition falsy :: "string option \<Rightarrow> bool" where
  "falsy v = (case v of None \<Rightarrow> True | Some s \<Rightarrow> s = [])"

text \<open>A download: its URL, the URL requested and the path it will write.\<close>

record task =
  task_url :: string
  task_urlMdFile :: string
  task_filePath :: path

text \<open>
  The promise chain of one download,
  \<^verbatim>\<open>axios.get(urlMdFile).then(writeFile).then(log).catch(error)\<close>, is in one of five
  states: the request is out; the response has come and \<^verbatim>\<open>fs.writeFile\<close> has been called
  with its body; the file has been opened, which empties it; the data has been written and
  the call has completed; the chain has settled, after the line on the console.
\<close>

datatype chain =
    Requested task
  | Opening task string
  | Writing task string
  | Resolved task
  | Settled task

fun chain_task :: "chain \<Rightarrow> task" where
  "chain_task (Requested t) = t"
| "chain_task (Opening t body) = t"
| "chain_task (Writing t body) = t"
| "chain_task (Resolved t) = t"
| "chain_task (Settled t) = t"

text \<open>
  The data of a write goes to the start of the file and replaces what is there, as far as
  it reaches; what another write has put beyond that stays. The data of one write is taken
  to arrive in one piece.
\<close>

definition overlay :: "string \<Rightarrow> string option \<Rightarrow> string" where
  "overlay body old = body @ drop (length body) (case old of None \<Rightarrow> [] | Some c \<Rightarrow> c)"

text \<open>
  One step of a chain. A rejected request or write goes to the \<^verbatim>\<open>catch\<close>, which logs it;
  the chain itself never rejects.
\<close>

fun step_chain :: "env \<Rightarrow> chain \<Rightarrow> world \<Rightarrow> chain \<times> world" where
  "step_chain e (Requested t) w =
     (case get_doc e (task_urlMdFile t) of
        Inl msg \<Rightarrow>
          (Settled t,
           emit [ConsoleError (''   ! Failed to download '' @ task_url t @ '': '' @ msg)] w)
      | Inr body \<Rightarrow> (Opening t body, emit [WriteFile (task_filePath t) body] w))"
| "step_chain e (Opening t body) w =
     (case fs_writeFile e (task_filePath t) of
        Some msg \<Rightarrow>
          (Settled t,
           emit [ConsoleError (''   ! Failed to download '' @ task_url t @ '': '' @ msg)] w)
      | None \<Rightarrow> (Writing t body, w\<lparr>files := (files w)(task_filePath t \<mapsto> [])\<rparr>))"
| "step_chain e (Writing t body) w =
     (Resolved t,
      w\<lparr>files := (files w)(task_filePath t \<mapsto> overlay body (files w (task_filePath t)))\<rparr>)"
| "step_chain e (Resolved t) w =
     (Settled t, emit [ConsoleLog (''   -> '' @ task_filePath t)] w)"
| "step_chain e (Settled t) w = (Settled t, w)"

text \<open>
  While the script awaits, the chains advance: each choice picks one of the chains started
  so far and lets it take one step.
\<close>

definition advance :: "env \<Rightarrow> chain list \<times> world \<Rightarrow> nat \<Rightarrow> chain list \<times> world" where
  "advance e cw k =
     (case cw of (cs, w) \<Rightarrow>
        if cs = [] then (cs, w)
        else (case step_chain e (cs ! (k mod length cs)) w of
                (c', w') \<Rightarrow> (cs[k mod length cs := c'], w')))"

definition run_choices :: "env \<Rightarrow> nat list \<Rightarrow> chain list \<times> world \<Rightarrow> chain list \<times> world" where
  "run_choices e ks cw = foldl (advance e) cw ks"

record loop_state =
  otherFiles :: "OtherFile list"
  downloadPromises :: "chain list"

text \<open>
  \<^verbatim>\<open>categorySlug\<close> after \<^verbatim>\<open>if (!categorySlug) { categorySlug = 'others'; ... }\<close>, the push
  onto \<^verbatim>\<open>otherFiles\<close> inside that branch, and the two paths built from the slug.
\<close>

definition category_slug :: "Category list \<Rightarrow> string \<Rightarrow> string" where
  "category_slug navStructure url =
     (case find_category navStructure url of
        None \<Rightarrow> ''others''
      | Some s \<Rightarrow> if s = [] then ''others'' else s)"

definition push_other :: "OtherFile list \<Rightarrow> string \<Rightarrow> OtherFile list" where
  "push_other others fileSlug =
     (if list_ex (\<lambda>f. other_slug f = fileSlug) others then others
      else others @ [\<lparr>other_slug = fileSlug, other_title = fileSlug\<rparr>])"

definition dir_path :: "Category list \<Rightarrow> string \<Rightarrow> path" where
  "dir_path navStructure url = path_join DOCS_DIR (category_slug navStructure url)"

definition file_path :: "Category list \<Rightarrow> string \<Rightarrow> path" where
  "file_path navStructure url = path_join (dir_path navStructure url) (basename url @ ''.md'')"

text \<open>
  Iteration \<open>i\<close> of the loop over \<^verbatim>\<open>allUrls\<close>. \<^verbatim>\<open>fs.mkdir\<close> is called and awaited, and the
  chains started before advance meanwhile. When it rejects, the function throws. Otherwise
  the request is issued and its promise pushed.
\<close>

definition loop_body ::
  "env \<Rightarrow> Category list \<Rightarrow> nat \<Rightarrow> loop_state \<Rightarrow> string \<Rightarrow> world
     \<Rightarrow> (error + loop_state) \<times> world" where
  "loop_body e navStructure i st url w =
     (let urlMdFile = url @ ''.md'';
          fileSlug = basename url;
          others = (if falsy (find_category navStructure url)
                    then push_other (otherFiles st) fileSlug else otherFiles st);
          dirPath = dir_path navStructure url;
          filePath = file_path navStructure url
      in case run_choices e (during_mkdir e i) (downloadPromises st, emit [Mkdir dirPath] w) of
           (promises, w') \<Rightarrow>
             (case fs_mkdir e dirPath of
                Some msg \<Rightarrow> (Inl (Rejected msg), w')
              | None \<Rightarrow>
                  (Inr \<lparr>otherFiles = others,
                        downloadPromises = promises @
                          [Requested \<lparr>task_url = url, task_urlMdFile = urlMdFile,
                                      task_filePath = filePath\<rparr>]\<rparr>,
                   emit [HttpGet urlMdFile] w')))"

fun for_urls ::
  "env \<Rightarrow> Category list \<Rightarrow> nat \<Rightarrow> string list \<Rightarrow> loop_state \<Rightarrow> world
     \<Rightarrow> (error + loop_state) \<times> world" where
  "for_urls e navStructure i [] st w = (Inr st, w)"
| "for_urls e navStructure i (url # urls) st w =
     (case loop_body e navStructure i st url w of
        (Inl err, w') \<Rightarrow> (Inl err, w')
      | (Inr st', w') \<Rightarrow> for_urls e navStructure (Suc i) urls st' w')"

text \<open>
  \<^verbatim>\<open>await Promise.all(downloadPromises)\<close>: the chains advance as \<open>completion\<close> chooses; when
  its choices run out, every chain is run to its end, in the order of the array (a chain
  settles in four steps at most). When the loop has thrown, \<^verbatim>\<open>main\<close> ends the process
  and the chains advance no further.
\<close>

definition drain_choices :: "nat \<Rightarrow> nat list" where
  "drain_choices n = concat (map (replicate 4) [0..<n])"

definition promise_all :: "env \<Rightarrow> chain list \<Rightarrow> world \<Rightarrow> world" where
  "promise_all e promises w =
     snd (run_choices e (completion e @ drain_choices (length promises)) (promises, w))"

definition downloadAndSaveDocs ::
  "env \<Rightarrow> string list \<Rightarrow> Category list \<Rightarrow> world \<Rightarrow> (error + OtherFile list) \<times> world" where
  "downloadAndSaveDocs e allUrls navStructure w =
     (case for_urls e navStructure 0 allUrls \<lparr>otherFiles = [], downloadPromises = []\<rparr> w of
        (Inl err, w') \<Rightarrow> (Inl err, w')
      | (Inr st, w') \<Rightarrow> (Inr (otherFiles st), promise_all e (downloadPromises st) w'))"

subsection \<open>\<^verbatim>\<open>generateReadme\<close>\<close>

definition category_link :: "Category \<Rightarrow> FileRef \<Rightarrow> string" where
  "category_link category file =
     ''- ['' @ file_title file @ ''](./'' @ DOCS_DIR @ ''/'' @ cat_slug category @ ''/''
       @ file_slug file @ ''.md)\<newline>''"

definition other_link :: "OtherFile \<Rightarrow> string" where
  "other_link file =
     ''- ['' @ other_title file @ ''](./'' @ DOCS_DIR @ ''/others/'' @ other_slug file
       @ ''.md)\<newline>''"

definition add_category :: "string \<Rightarrow> Category \<Rightarrow> string" where
  "add_category readmeContent category =
     foldl (\<lambda>content file. content @ category_link category file)
       (readmeContent @ ''## '' @ cat_title category @ ''\<newline>\<newline>'') (cat_files category)
       @ ''\<newline>''"

definition readme_header :: "string \<Rightarrow> string" where
  "readme_header stamp =
     ''# Claude Code Mirror Docs\<newline>\<newline>''
     @ ''_This repository is a mirror of the official [Claude Code](https://docs.anthropic.com/en/docs/claude-code/) documentation. It is updated automatically._\<newline>\<newline>''
     @ ''**Last updated:** '' @ stamp @ ''\<newline>\<newline>---\<newline>\<newline>''"

definition readme_content :: "string \<Rightarrow> Category list \<Rightarrow> OtherFile list \<Rightarrow> string" where
  "readme_content stamp navStructure others =
     (let readmeContent = foldl add_category (readme_header stamp) navStructure
      in if length others > 0
         then foldl (\<lambda>content file. content @ other_link file)
                (readmeContent @ ''## Others\<newline>\<newline>'') others @ ''\<newline>''
         else readmeContent)"

definition generateReadme ::
  "env \<Rightarrow> Category list \<Rightarrow> OtherFile list \<Rightarrow> world \<Rightarrow> (error + unit) \<times> world" where
  "generateReadme e navStructure others w =
     (let readmeContent = readme_content (now e) navStructure others
      in case fs_writeFile e ROOT_README_PATH of
           Some msg \<Rightarrow> (Inl (Rejected msg), emit [WriteFile ROOT_README_PATH readmeContent] w)
         | None \<Rightarrow>
             (Inr (), emit [WriteFile ROOT_README_PATH readmeContent]
                        (w\<lparr>files := (files w)(ROOT_README_PATH \<mapsto> readmeContent)\<rparr>)))"

subsection \<open>\<^verbatim>\<open>main\<close>\<close>

text \<open>
  The steps in sequence; the first throw ends them. The process exits with status 1 from
  the \<^verbatim>\<open>catch\<close> of \<^verbatim>\<open>main\<close>, and with status 0 when \<^verbatim>\<open>main\<close> returns.
\<close>

definition main_steps :: "env \<Rightarrow> world \<Rightarrow> (error + unit) \<times> world" where
  "main_steps e w =
     (case cleanPreviousBuild e w of
        (Inl err, w1) \<Rightarrow> (Inl err, w1)
      | (Inr u, w1) \<Rightarrow>
     (case fetchAllUrlsFromSitemap e w1 of
        (Inl err, w2) \<Rightarrow> (Inl err, w2)
      | (Inr allUrls, w2) \<Rightarrow>
     (case fetchNavigationStructure e w2 of
        (Inl err, w3) \<Rightarrow> (Inl err, w3)
      | (Inr structure, w3) \<Rightarrow>
     (case downloadAndSaveDocs e allUrls structure w3 of
        (Inl err, w4) \<Rightarrow> (Inl err, w4)
      | (Inr others, w4) \<Rightarrow> generateReadme e structure others w4))))"

definition main :: "env \<Rightarrow> world \<Rightarrow> nat \<times> world" where
  "main e w =
     (case main_steps e w of
        (Inl err, w') \<Rightarrow> (1, w')
      | (Inr u, w') \<Rightarrow> (0, w'))"

subsection \<open>Notions the properties are stated with\<close>

text \<open>
  A \<^verbatim>\<open>url\<close> element as the sitemap protocol has it: exactly one \<^verbatim>\<open>loc\<close> child, holding
  text. The \<^verbatim>\<open>loc\<close> values of a sitemap are those of all its \<^verbatim>\<open>url\<close> elements, in
  document order.
\<close>

definition well_formed_url :: "url_entry \<Rightarrow> bool" where
  "well_formed_url url = (case loc url of [XText s] \<Rightarrow> True | _ \<Rightarrow> False)"

definition loc_values :: "url_entry list \<Rightarrow> string list" where
  "loc_values urls = concat (map (\<lambda>url. map text_of (loc url)) urls)"

text \<open>
  The sections of the index as the specification words them: a level-2 heading with the
  title, one link per file, a blank line; the last section only for a non-empty list.
\<close>

definition spec_category_section :: "Category \<Rightarrow> string" where
  "spec_category_section c =
     ''## '' @ cat_title c @ ''\<newline>\<newline>''
     @ concat (map (\<lambda>f. ''- ['' @ file_title f @ ''](./docs/'' @ cat_slug c @ ''/''
                          @ file_slug f @ ''.md)\<newline>'') (cat_files c))
     @ ''\<newline>''"

definition spec_others_section :: "OtherFile list \<Rightarrow> string" where
  "spec_others_section others =
     (if others = [] then []
      else ''## Others\<newline>\<newline>''
           @ concat (map (\<lambda>f. ''- ['' @ other_title f @ ''](./docs/others/''
                                @ other_slug f @ ''.md)\<newline>'') others)
           @ ''\<newline>'')"

text \<open>Some category lists a file whose \<^verbatim>\<open>href\<close> is exactly the URL.\<close>

definition matches :: "Category list \<Rightarrow> string \<Rightarrow> bool" where
  "matches navStructure url =
     list_ex (\<lambda>c. list_ex (\<lambda>f. file_href f = url) (cat_files c)) navStructure"

text \<open>The elements of a list in the order of their first occurrences.\<close>

function first_occurrences :: "'a list \<Rightarrow> 'a list" where
  "first_occurrences [] = []"
| "first_occurrences (x # xs) = x # first_occurrences (removeAll x xs)"
  by pat_completeness auto
termination
  by (relation "measure length") (auto simp: less_Suc_eq_le length_removeAll_less_eq)

text \<open>
  What one iteration of the loop over \<^verbatim>\<open>allUrls\<close> adds when its \<^verbatim>\<open>mkdir\<close> succeeds: a
  pending download, two calls, and possibly an entry of \<^verbatim>\<open>otherFiles\<close>.
\<close>

definition mk_task :: "Category list \<Rightarrow> string \<Rightarrow> task" where
  "mk_task navStructure url =
     \<lparr>task_url = url, task_urlMdFile = url @ ''.md'', task_filePath = file_path navStructure url\<rparr>"

definition loop_calls :: "Category list \<Rightarrow> string \<Rightarrow> event list" where
  "loop_calls navStructure url = [Mkdir (dir_path navStructure url), HttpGet (url @ ''.md'')]"

definition others_step :: "Category list \<Rightarrow> OtherFile list \<Rightarrow> string \<Rightarrow> OtherFile list" where
  "others_step navStructure others url =
     (if falsy (find_category navStructure url) then push_other others (basename url) else others)"

text \<open>
  The ordering the specification states for the loop: up to the last \<^verbatim>\<open>mkdir\<close> of a trace
  there is no request.
\<close>

definition is_mkdir :: "event \<Rightarrow> bool" where
  "is_mkdir ev = (case ev of Mkdir d \<Rightarrow> True | _ \<Rightarrow> False)"

definition is_get :: "event \<Rightarrow> bool" where
  "is_get ev = (case ev of HttpGet u \<Rightarrow> True | _ \<Rightarrow> False)"

definition no_get_before_last_mkdir :: "event list \<Rightarrow> bool" where
  "no_get_before_last_mkdir tr =
     (\<not> list_ex is_get (rev (dropWhile (\<lambda>ev. \<not> is_mkdir ev) (rev tr))))"







text \<open>
  The calls of the loop, as opposed to those of the chains; and what the chain of a
  download has left behind when it is in a given state: the call of \<^verbatim>\<open>fs.writeFile\<close> with
  the body of the response, a file at its path, and at its end the line on the console.
\<close>

definition is_loop_call :: "event \<Rightarrow> bool" where
  "is_loop_call ev = (is_mkdir ev \<or> is_get ev)"


text \<open>
  What can become of the chains and the world while the script runs its loop and awaits
  the chains: a chain takes a step, the script issues calls, a download of \<open>T\<close> is started.
\<close>

inductive evolves ::
  "env \<Rightarrow> task set \<Rightarrow> chain list \<times> world \<Rightarrow> chain list \<times> world \<Rightarrow> bool"
  for e :: env and T :: "task set" and s :: "chain list \<times> world" where
    start: "evolves e T s s"
  | step: "evolves e T s cw \<Longrightarrow> evolves e T s (advance e cw k)"
  | call: "evolves e T s (cs, w) \<Longrightarrow> evolves e T s (cs, emit es w)"
  | push: "evolves e T s (cs, w) \<Longrightarrow> t \<in> T \<Longrightarrow> evolves e T s (cs @ [Requested t], w)"







subsection \<open>A small site\<close>

text \<open>
  A sitemap with five URLs, one of them outside the prefix and two with the same last
  segment; a navigation page with one titled group of two links (and a link without
  \<^verbatim>\<open>href\<close>) and one group without a title; a remote that serves three of the documents.
  The chains advance only while \<^verbatim>\<open>Promise.all\<close> is awaited, one after the other.
\<close>

definition example_sitemap :: "url_entry list" where
  "example_sitemap =
     [\<lparr>loc = [XText ''https://docs.anthropic.com/en/docs/claude-code/overview'']\<rparr>,
      \<lparr>loc = [XText ''https://docs.anthropic.com/en/api/messages'']\<rparr>,
      \<lparr>loc = [XText ''https://docs.anthropic.com/en/docs/claude-code/quickstart'']\<rparr>,
      \<lparr>loc = [XText ''https://docs.anthropic.com/en/docs/claude-code/a/setup'']\<rparr>,
      \<lparr>loc = [XText ''https://docs.anthropic.com/en/docs/claude-code/b/setup'']\<rparr>]"

definition example_overview :: string where
  "example_overview = ''https://docs.anthropic.com/en/docs/claude-code/overview''"

definition example_quickstart :: string where
  "example_quickstart = ''https://docs.anthropic.com/en/docs/claude-code/quickstart''"

definition example_a_setup :: string where
  "example_a_setup = ''https://docs.anthropic.com/en/docs/claude-code/a/setup''"

definition example_b_setup :: string where
  "example_b_setup = ''https://docs.anthropic.com/en/docs/claude-code/b/setup''"

definition example_urls :: "string list" where
  "example_urls = [example_overview, example_quickstart, example_a_setup, example_b_setup]"

definition example_untitled :: sidebar_div where
  "example_untitled =
     \<lparr>sidebar_titles = ['' ''],
      sidebar_anchors = [\<lparr>a_href = Some ''/en/docs/claude-code/a/setup'', a_text = ''Setup''\<rparr>]\<rparr>"

definition example_divs :: "sidebar_div list" where
  "example_divs =
     [\<lparr>sidebar_titles = [''Getting started''],
       sidebar_anchors =
         [\<lparr>a_href = Some ''/en/docs/claude-code/overview'', a_text = ''Overview''\<rparr>,
          \<lparr>a_href = Some ''/en/docs/claude-code/quickstart'', a_text = '' Quickstart ''\<rparr>,
          \<lparr>a_href = None, a_text = ''Soon''\<rparr>]\<rparr>,
      example_untitled]"

definition example_structure :: "Category list" where
  "example_structure =
     [\<lparr>cat_title = ''Getting started'', cat_slug = ''getting-started'',
       cat_files =
         [\<lparr>file_slug = ''overview'', file_title = ''Overview'',
           file_href = ''https://docs.anthropic.com/en/docs/claude-code/overview''\<rparr>,
          \<lparr>file_slug = ''quickstart'', file_title = ''Quickstart'',
           file_href = ''https://docs.anthropic.com/en/docs/claude-code/quickstart''\<rparr>]\<rparr>]"

definition example_remote :: "string \<Rightarrow> string + string" where
  "example_remote url =
     (if url = ''https://docs.anthropic.com/en/docs/claude-code/overview.md'' then Inr ''# Overview''
      else if url = ''https://docs.anthropic.com/en/docs/claude-code/a/setup.md''
        then Inr ''# Setup A''
      else if url = ''https://docs.anthropic.com/en/docs/claude-code/b/setup.md'' then Inr ''# B''
      else Inl ''Request failed with status code 404'')"

definition example_env :: env where
  "example_env =
     \<lparr>fs_rm = (\<lambda>p. None), fs_mkdir = (\<lambda>p. None), fs_writeFile = (\<lambda>p. None),
      get_sitemap = Inr (Some example_sitemap), get_nav = Inr example_divs,
      get_doc = example_remote, now = ''Thu, 14 Aug 2025 07:56:03 GMT'',
      during_mkdir = (\<lambda>i. []), completion = []\<rparr>"

definition example_world :: world where
  "example_world = \<lparr>files = Map.empty, trace = []\<rparr>"

text \<open>
  A group whose title is made of punctuation only: the title is not empty, its slug is.
\<close>

definition example_symbols :: sidebar_div where
  "example_symbols =
     \<lparr>sidebar_titles = [''!!!''],
      sidebar_anchors = [\<lparr>a_href = Some ''/en/docs/claude-code/overview'', a_text = ''Overview''\<rparr>]\<rparr>"

definition example_symbols_category :: Category where
  "example_symbols_category =
     \<lparr>cat_title = ''!!!'', cat_slug = [],
      cat_files =
        [\<lparr>file_slug = ''overview'', file_title = ''Overview'',
          file_href = ''https://docs.anthropic.com/en/docs/claude-code/overview''\<rparr>]\<rparr>"


text \<open>
  The same site where the directory \<^verbatim>\<open>docs/others\<close> cannot be created, and the first
  download runs to its end while the second \<^verbatim>\<open>mkdir\<close> is awaited.
\<close>

definition example_env_denied :: env where
  "example_env_denied =
     example_env\<lparr>fs_mkdir := (\<lambda>p. if p = ''docs/others'' then Some ''EACCES'' else None),
                 during_mkdir := (\<lambda>i. if i = 1 then [0, 0, 0, 0] else [])\<rparr>"

section \<open>Properties\<close>

subsection \<open>Slugs\<close>

lemma slug_char_not_space: "slug_char c \<Longrightarrow> \<not> is_space c"
  by (auto simp: slug_char_def is_space_def Let_def)

lemma slug_char_not_upper: "slug_char c \<Longrightarrow> \<not> is_upper c"
  by (auto simp: slug_char_def is_upper_def Let_def)

lemma lower_space_iff: "is_space (toLowerCase_char c) = is_space c"
proof (cases "is_upper c")
  case True
  then have "of_char c + (32::nat) < 256" by (auto simp: is_upper_def Let_def)
  then have "of_char (char_of (of_char c + (32::nat))) = (of_char c + 32 :: nat)"
    by simp
  with True show ?thesis
    by (auto simp: toLowerCase_char_def is_space_def is_upper_def Let_def)
next
  case False
  then show ?thesis by (simp add: toLowerCase_char_def)
qed

text \<open>
  The two states of the scan, together: outside a run of white space and inside one.
\<close>

lemma slug_units_both:
  "remove_non_slug (replace_spaces (toLowerCase cs)) = slug_units False cs \<and>
   remove_non_slug (replace_spaces (dropWhile is_space (toLowerCase cs))) = slug_units True cs"
proof (induction cs)
  case Nil
  show ?case by (simp add: remove_non_slug_def toLowerCase_def)
next
  case (Cons c cs)
  have hy: "slug_char CHR ''-''" by (simp add: slug_char_def)
  show ?case
  proof (cases "is_space (toLowerCase_char c)")
    case True
    with Cons hy show ?thesis
      by (simp add: remove_non_slug_def toLowerCase_def)
  next
    case False
    with Cons show ?thesis
      by (simp add: remove_non_slug_def toLowerCase_def)
  qed
qed

lemma slugify_slug_char: "list_all slug_char (slugify t)"
  by (simp add: slugify_def remove_non_slug_def list_all_iff)

lemma replace_spaces_id: "list_all (\<lambda>c. \<not> is_space c) s \<Longrightarrow> replace_spaces s = s"
  by (induction s) auto

lemma slugify_fixed:
  assumes "list_all slug_char s"
  shows "slugify s = s"
proof -
  from assms have 1: "toLowerCase s = s"
    by (induction s) (auto simp: toLowerCase_def toLowerCase_char_def slug_char_not_upper)
  from assms have "list_all (\<lambda>c. \<not> is_space c) s"
    by (induction s) (auto simp: slug_char_not_space)
  then have 2: "replace_spaces s = s" by (rule replace_spaces_id)
  from assms have 3: "remove_non_slug s = s"
    by (induction s) (auto simp: remove_non_slug_def)
  show ?thesis by (simp add: slugify_def 1 2 3)
qed

lemma slugify_getting_started: "slugify ''Getting Started!'' = ''getting-started''"
  by code_simp

text \<open>
  Claim C5. \<^verbatim>\<open>slugify\<close> is a function of its argument that lower-cases it, puts one hyphen
  for every maximal run of white space and drops every code unit outside \<^verbatim>\<open>[a-z0-9-]\<close>
  (it agrees with \<open>slug_spec\<close>, and its result has only such units); applying it twice
  is applying it once; and the slug of \<^verbatim>\<open>Getting Started!\<close> is \<^verbatim>\<open>getting-started\<close>.
\<close>

theorem slugify_collapses_and_is_idempotent:
  "slugify t = slug_spec t \<and> list_all slug_char (slugify t) \<and>
   slugify (slugify t) = slugify t \<and>
   slugify ''Getting Started!'' = ''getting-started''"
  using slug_units_both [of t] slugify_slug_char [of t]
    slugify_fixed [OF slugify_slug_char [of t]] slugify_getting_started
  by (simp add: slugify_def slug_spec_def)

theorem slugify_collapses_and_is_idempotent_witness:
  "slugify '' Claude  Code: FAQ '' = ''-claude-code-faq-'' \<and>
   slug_spec '' Claude  Code: FAQ '' = ''-claude-code-faq-'' \<and>
   slugify (slugify '' Claude  Code: FAQ '') = ''-claude-code-faq-''"
proof -
  have v: "slugify '' Claude  Code: FAQ '' = ''-claude-code-faq-''" by code_simp
  have t: "slugify '' Claude  Code: FAQ '' = slug_spec '' Claude  Code: FAQ '' \<and>
      slugify (slugify '' Claude  Code: FAQ '') = slugify '' Claude  Code: FAQ ''"
    using slugify_collapses_and_is_idempotent [of "'' Claude  Code: FAQ ''"] by blast
  from t v show ?thesis by metis
qed

subsection \<open>The sitemap fetcher\<close>

lemma startsWith_prefix: "startsWith s p = prefix p s"
  by (induction s p rule: startsWith.induct) auto

lemma well_formed_urlD: "well_formed_url url \<Longrightarrow> \<exists>s. loc url = [XText s]"
  by (auto simp: well_formed_url_def split: list.splits xml_value.splits)

lemma map_loc0_well_formed:
  "list_all well_formed_url urls \<Longrightarrow>
   map_throwing loc0 urls = Inr (map XText (loc_values urls))"
proof (induction urls)
  case Nil
  show ?case by (simp add: loc_values_def)
next
  case (Cons url urls)
  then obtain s where s: "loc url = [XText s]" using well_formed_urlD by auto
  from Cons have "map_throwing loc0 urls = Inr (map XText (loc_values urls))" by simp
  moreover from s have "loc0 url = Inr (XText s)" by (simp add: loc0_def)
  moreover from s have "loc_values (url # urls) = s # loc_values urls"
    by (simp add: loc_values_def text_of_def)
  ultimately show ?case by simp
qed

lemma filter_has_prefix_text:
  "filter_throwing has_prefix (map XText ss) =
   Inr (map XText (filter (\<lambda>s. startsWith s URL_PREFIX) ss))"
  by (induction ss) (auto simp: has_prefix_def)

lemma claude_urls_well_formed:
  assumes "list_all well_formed_url urls"
  shows "claude_urls (Some urls) = Inr (filter (prefix URL_PREFIX) (loc_values urls))"
proof -
  have "map text_of (map XText ss) = ss" for ss
    by (induction ss) (auto simp: text_of_def)
  then show ?thesis
    using map_loc0_well_formed [OF assms]
    by (simp add: claude_urls_def filter_has_prefix_text startsWith_prefix [abs_def])
qed

lemma count_list_filter:
  "count_list (filter P xs) x = (if P x then count_list xs x else 0)"
  by (induction xs) auto

text \<open>
  Claim C6. On a sitemap whose \<^verbatim>\<open>url\<close> elements each hold one \<^verbatim>\<open>loc\<close>, the fetcher returns
  exactly the \<^verbatim>\<open>loc\<close> values that start with \<^verbatim>\<open>URL_PREFIX\<close>: in document order (a
  subsequence of the values), each as often as the sitemap has it, and no value without
  the prefix.
\<close>

theorem sitemap_fetcher_keeps_prefixed_locs:
  assumes "get_sitemap e = Inr (Some urls)" and "list_all well_formed_url urls"
  shows "fst (fetchAllUrlsFromSitemap e w) = Inr (filter (prefix URL_PREFIX) (loc_values urls)) \<and>
         subseq (filter (prefix URL_PREFIX) (loc_values urls)) (loc_values urls) \<and>
         (\<forall>u. count_list (filter (prefix URL_PREFIX) (loc_values urls)) u =
               (if prefix URL_PREFIX u then count_list (loc_values urls) u else 0))"
  using assms claude_urls_well_formed [OF assms(2)]
  by (simp add: fetchAllUrlsFromSitemap_def count_list_filter)

subsection \<open>The navigation extractor\<close>

lemma foldl_push_div: "foldl push_div acc ds = acc @ foldl push_div [] ds"
proof (induction ds arbitrary: acc rule: rev_induct)
  case Nil
  show ?case by simp
next
  case (snoc d ds)
  have "push_div (a @ b) d = a @ push_div b d" for a b
    by (simp add: push_div_def Let_def)
  then show ?case by (simp add: snoc [of acc])
qed

lemma navigation_structure_append:
  "navigation_structure (ds1 @ ds2) = navigation_structure ds1 @ navigation_structure ds2"
  by (simp add: navigation_structure_def foldl_push_div [of "foldl push_div [] ds1"])

lemma navigation_structure_Cons:
  "navigation_structure (d # ds) = push_div [] d @ navigation_structure ds"
  by (simp add: navigation_structure_def foldl_push_div [of "push_div [] d"])

lemma navigation_titles_nonempty: "list_all (\<lambda>c. cat_title c \<noteq> []) (navigation_structure ds)"
proof (induction ds)
  case Nil
  show ?case by (simp add: navigation_structure_def)
next
  case (Cons d ds)
  have "list_all (\<lambda>c. cat_title c \<noteq> []) (push_div [] d)"
    by (simp add: push_div_def Let_def)
  with Cons show ?case by (simp add: navigation_structure_Cons)
qed

lemma navigation_structure_skip:
  assumes "trim (concat (sidebar_titles d)) = []"
  shows "navigation_structure (ds1 @ d # ds2) = navigation_structure (ds1 @ ds2)"
  using assms
  by (simp add: navigation_structure_append navigation_structure_Cons push_div_def)

subsection \<open>The index generator\<close>

lemma foldl_append_lines: "foldl (\<lambda>content x. content @ f x) acc xs = acc @ concat (map f xs)"
  by (induction xs arbitrary: acc) simp_all

lemma add_category_section: "add_category acc c = acc @ spec_category_section c"
  by (simp add: add_category_def spec_category_section_def foldl_append_lines
      category_link_def DOCS_DIR_def)

lemma foldl_add_category:
  "foldl add_category acc cs = acc @ concat (map spec_category_section cs)"
  by (induction cs arbitrary: acc) (simp_all add: add_category_section)

lemma readme_content_sections:
  "readme_content stamp nav others =
   readme_header stamp @ concat (map spec_category_section nav) @ spec_others_section others"
  by (simp add: readme_content_def foldl_add_category spec_others_section_def
      foldl_append_lines other_link_def DOCS_DIR_def)

text \<open>
  Claim C7. The index is the header, then for each category in navigation order its
  section (heading with the title, one link per file in list order, link text the file's
  title, target \<^verbatim>\<open>./docs/<category-slug>/<file-slug>.md\<close>), then the section
  \<^verbatim>\<open>Others\<close> with the entries of \<^verbatim>\<open>otherFiles\<close> listed the same way; that last section is
  there exactly when \<^verbatim>\<open>otherFiles\<close> is not empty. \<^verbatim>\<open>generateReadme\<close> writes this text to
  \<^verbatim>\<open>README.md\<close> whenever the write succeeds.
\<close>

theorem readme_lists_categories_then_others:
  "readme_content stamp nav others =
     readme_header stamp @ concat (map spec_category_section nav) @ spec_others_section others \<and>
   (spec_others_section others = []) = (others = []) \<and>
   (fs_writeFile e ROOT_README_PATH = None) =
     (\<exists>w'. generateReadme e nav others w = (Inr (), w') \<and>
        files w' ROOT_README_PATH = Some (readme_content (now e) nav others))"
  by (auto simp: readme_content_sections spec_others_section_def generateReadme_def emit_def Let_def
      split: option.splits)

subsection \<open>The categorizer and downloader\<close>

lemma find_category_None_iff: "(find_category nav url = None) = (\<not> matches nav url)"
  by (induction nav) (auto simp: matches_def)

lemma find_category_first:
  assumes "\<not> matches pre url" and "list_ex (\<lambda>f. file_href f = url) (cat_files c)"
  shows "find_category (pre @ c # post) url = Some (cat_slug c)"
  using assms by (induction pre) (auto simp: matches_def)

lemma unmatched_falsy: "\<not> matches nav url \<Longrightarrow> falsy (find_category nav url)"
  by (simp add: falsy_def find_category_None_iff [symmetric])


lemma emit_Nil: "emit [] w = w"
  by (simp add: emit_def)

text \<open>The list \<^verbatim>\<open>otherFiles\<close> after the loop.\<close>

lemma push_other_slugs:
  "map other_slug (push_other os s) =
   (if s \<in> set (map other_slug os) then map other_slug os else map other_slug os @ [s])"
  by (auto simp: push_other_def list_ex_iff)

lemma push_other_titles:
  "list_all (\<lambda>f. other_title f = other_slug f) os \<Longrightarrow>
   list_all (\<lambda>f. other_title f = other_slug f) (push_other os s)"
  by (simp add: push_other_def)

lemma others_titles:
  "list_all (\<lambda>f. other_title f = other_slug f) os \<Longrightarrow>
   list_all (\<lambda>f. other_title f = other_slug f) (foldl (others_step nav) os urls)"
  by (induction urls arbitrary: os) (simp_all add: others_step_def push_other_titles)

lemma first_occurrences_set: "set (first_occurrences xs) = set xs"
  by (induction xs rule: first_occurrences.induct) auto

lemma first_occurrences_distinct: "distinct (first_occurrences xs)"
  by (induction xs rule: first_occurrences.induct) (auto simp: first_occurrences_set)

lemma removeAll_filter: "removeAll x (filter P xs) = filter (\<lambda>y. P y \<and> y \<noteq> x) xs"
  by (induction xs) auto

lemma others_slugs:
  "map other_slug (foldl (others_step nav) os urls) =
   map other_slug os @
   first_occurrences (filter (\<lambda>s. s \<notin> set (map other_slug os))
     (map basename (filter (\<lambda>u. falsy (find_category nav u)) urls)))"
proof (induction urls arbitrary: os)
  case Nil
  show ?case by simp
next
  case (Cons u urls)
  let ?xs = "map basename (filter (\<lambda>u. falsy (find_category nav u)) urls)"
  show ?case
  proof (cases "falsy (find_category nav u)")
    case False
    then show ?thesis using Cons [of os] by (simp add: others_step_def)
  next
    case True
    show ?thesis
    proof (cases "basename u \<in> set (map other_slug os)")
      case in_os: True
      then have "push_other os (basename u) = os"
        by (auto simp: push_other_def list_ex_iff)
      with True in_os show ?thesis using Cons [of os] by (simp add: others_step_def)
    next
      case new: False
      have slugs: "map other_slug (push_other os (basename u)) = map other_slug os @ [basename u]"
        using new by (simp add: push_other_slugs)
      have "map other_slug (foldl (others_step nav) os (u # urls)) =
            map other_slug (foldl (others_step nav) (push_other os (basename u)) urls)"
        using True by (simp add: others_step_def)
      also have "\<dots> = (map other_slug os @ [basename u]) @
            first_occurrences (filter (\<lambda>s. s \<notin> set (map other_slug os @ [basename u])) ?xs)"
        using Cons [of "push_other os (basename u)"] by (simp only: slugs)
      also have "filter (\<lambda>s. s \<notin> set (map other_slug os @ [basename u])) ?xs =
            removeAll (basename u) (filter (\<lambda>s. s \<notin> set (map other_slug os)) ?xs)"
        by (simp add: removeAll_filter conj_commute)
      finally show ?thesis using True new by simp
    qed
  qed
qed

lemma matched_not_falsy:
  assumes "list_all (\<lambda>c. cat_slug c \<noteq> []) nav"
  shows "falsy (find_category nav url) = (\<not> matches nav url)"
  using assms by (induction nav) (auto simp: matches_def falsy_def)

lemma push_other_alt:
  "push_other os s =
   (if s \<in> set (map other_slug os) then os
    else os @ [\<lparr>other_slug = s, other_title = s\<rparr>])"
  by (force simp: push_other_def list_ex_iff)

lemma others_lines:
  assumes "map other_title os = map other_slug os"
  shows "concat (map (\<lambda>f. a @ other_title f @ b @ other_slug f @ c) os) =
         concat (map (\<lambda>s. a @ s @ b @ s @ c) (map other_slug os))"
  using assms by (induction os) auto

text \<open>The promise chains issue no \<^verbatim>\<open>mkdir\<close> and no request.\<close>

lemma category_slug_unmatched: "\<not> matches nav url \<Longrightarrow> category_slug nav url = ''others''"
  by (simp add: category_slug_def find_category_None_iff [symmetric])

lemma category_slug_first_match:
  assumes "\<not> matches pre url" and "list_ex (\<lambda>f. file_href f = url) (cat_files c)"
    and "cat_slug c \<noteq> []"
  shows "category_slug (pre @ c # post) url = cat_slug c"
  using find_category_first [OF assms(1,2), of post] assms(3)
  by (simp add: category_slug_def)

subsection \<open>Paths\<close>


















subsection \<open>Chains\<close>

lemma step_chain_task: "chain_task (fst (step_chain e c w)) = chain_task c"
  by (cases c) (auto split: sum.splits option.splits)

lemma advance_tasks: "map chain_task (fst (advance e (cs, w) k)) = map chain_task cs"
proof (cases "cs = []")
  case True
  then show ?thesis by (simp add: advance_def)
next
  case False
  then have i: "k mod length cs < length cs" by simp
  obtain c' w' where s: "step_chain e (cs ! (k mod length cs)) w = (c', w')"
    by (cases "step_chain e (cs ! (k mod length cs)) w")
  with step_chain_task [of e "cs ! (k mod length cs)" w]
  have "chain_task c' = chain_task (cs ! (k mod length cs))" by simp
  with i have "map chain_task (cs[k mod length cs := c']) = map chain_task cs"
    by (simp add: map_update list_update_same_conv)
  with False s show ?thesis by (simp add: advance_def)
qed

lemma run_choices_tasks: "map chain_task (fst (run_choices e ks (cs, w))) = map chain_task cs"
proof (induction ks arbitrary: cs w)
  case Nil
  show ?case by (simp add: run_choices_def)
next
  case (Cons k ks)
  obtain cs' w' where a: "advance e (cs, w) k = (cs', w')" by (cases "advance e (cs, w) k")
  with advance_tasks [of e cs w k] have "map chain_task cs' = map chain_task cs" by simp
  with Cons [of cs' w'] a show ?case by (simp add: run_choices_def)
qed


subsection \<open>The fields of the environment a step reads\<close>

text \<open>Each step reads only some fields of the environment.\<close>

lemma cleanPreviousBuild_cong:
  "fs_rm e = fs_rm e' \<Longrightarrow> fs_mkdir e = fs_mkdir e' \<Longrightarrow>
   cleanPreviousBuild e = cleanPreviousBuild e'"
  by (rule ext) (simp add: cleanPreviousBuild_def cong: option.case_cong)

lemma fetchAllUrlsFromSitemap_cong:
  "get_sitemap e = get_sitemap e' \<Longrightarrow> fetchAllUrlsFromSitemap e = fetchAllUrlsFromSitemap e'"
  by (rule ext) (simp add: fetchAllUrlsFromSitemap_def)

lemma step_chain_cong:
  assumes "get_doc e = get_doc e'" and "fs_writeFile e = fs_writeFile e'"
  shows "step_chain e = step_chain e'"
proof (intro ext)
  fix c w
  show "step_chain e c w = step_chain e' c w"
    using assms by (cases c) (simp_all cong: option.case_cong sum.case_cong)
qed

lemma run_choices_cong:
  assumes "get_doc e = get_doc e'" and "fs_writeFile e = fs_writeFile e'"
  shows "run_choices e = run_choices e'"
proof -
  have "advance e = advance e'"
    by (intro ext) (simp add: advance_def step_chain_cong [OF assms] split: prod.splits)
  then show ?thesis by (intro ext) (simp add: run_choices_def)
qed

lemma loop_body_cong:
  assumes "fs_mkdir e = fs_mkdir e'" and "during_mkdir e = during_mkdir e'"
    and "get_doc e = get_doc e'" and "fs_writeFile e = fs_writeFile e'"
  shows "loop_body e = loop_body e'"
  using assms(1,2)
  by (intro ext)
    (simp add: loop_body_def run_choices_cong [OF assms(3,4)] cong: option.case_cong prod.case_cong)

lemma for_urls_cong:
  assumes "fs_mkdir e = fs_mkdir e'" and "during_mkdir e = during_mkdir e'"
    and "get_doc e = get_doc e'" and "fs_writeFile e = fs_writeFile e'"
  shows "for_urls e nav i urls st w = for_urls e' nav i urls st w"
  by (induction urls arbitrary: i st w)
    (simp_all add: loop_body_cong [OF assms] split: prod.splits sum.splits)

lemma promise_all_cong:
  assumes "get_doc e = get_doc e'" and "fs_writeFile e = fs_writeFile e'"
    and "completion e = completion e'"
  shows "promise_all e = promise_all e'"
  using assms(3) by (intro ext) (simp add: promise_all_def run_choices_cong [OF assms(1,2)])

lemma downloadAndSaveDocs_cong:
  assumes "fs_mkdir e = fs_mkdir e'" and "during_mkdir e = during_mkdir e'"
    and "get_doc e = get_doc e'" and "fs_writeFile e = fs_writeFile e'"
    and "completion e = completion e'"
  shows "downloadAndSaveDocs e = downloadAndSaveDocs e'"
  by (intro ext)
    (simp add: downloadAndSaveDocs_def for_urls_cong [OF assms(1-4)]
      promise_all_cong [OF assms(3-5)] split: prod.splits sum.splits)

lemma generateReadme_cong:
  "now e = now e' \<Longrightarrow> fs_writeFile e = fs_writeFile e' \<Longrightarrow> generateReadme e = generateReadme e'"
  by (intro ext) (simp add: generateReadme_def cong: option.case_cong)

lemma main_steps_nav_cong:
  assumes "navigation_structure ds = navigation_structure ds'"
  shows "main_steps (e\<lparr>get_nav := Inr ds\<rparr>) w = main_steps (e\<lparr>get_nav := Inr ds'\<rparr>) w"
proof -
  let ?a = "e\<lparr>get_nav := Inr ds\<rparr>" and ?b = "e\<lparr>get_nav := Inr ds'\<rparr>"
  have 1: "cleanPreviousBuild ?a = cleanPreviousBuild ?b"
    by (rule cleanPreviousBuild_cong) simp_all
  have 2: "fetchAllUrlsFromSitemap ?a = fetchAllUrlsFromSitemap ?b"
    by (rule fetchAllUrlsFromSitemap_cong) simp
  have 3: "fetchNavigationStructure ?a = fetchNavigationStructure ?b"
    using assms by (intro ext) (simp add: fetchNavigationStructure_def)
  have 4: "downloadAndSaveDocs ?a = downloadAndSaveDocs ?b"
    by (rule downloadAndSaveDocs_cong) simp_all
  have 5: "generateReadme ?a = generateReadme ?b"
    by (rule generateReadme_cong) simp_all
  show ?thesis unfolding main_steps_def 1 2 3 4 5 ..
qed

text \<open>
  Claim C9. A sidebar group whose title is empty after trimming (or that has no title
  element) yields no category: the structure is the one extracted from the page without
  that group, every extracted category has a non-empty title, and the whole run (exit
  status, files, calls issued) is the run on the page without that group.
\<close>

theorem untitled_group_contributes_nothing:
  assumes "trim (concat (sidebar_titles d)) = []"
  shows "navigation_structure (ds1 @ d # ds2) = navigation_structure (ds1 @ ds2) \<and>
         list_all (\<lambda>c. cat_title c \<noteq> []) (navigation_structure (ds1 @ d # ds2)) \<and>
         main (e\<lparr>get_nav := Inr (ds1 @ d # ds2)\<rparr>) w = main (e\<lparr>get_nav := Inr (ds1 @ ds2)\<rparr>) w"
proof -
  have 1: "navigation_structure (ds1 @ d # ds2) = navigation_structure (ds1 @ ds2)"
    using assms by (rule navigation_structure_skip)
  have 2: "list_all (\<lambda>c. cat_title c \<noteq> []) (navigation_structure (ds1 @ d # ds2))"
    by (rule navigation_titles_nonempty)
  have 3: "main (e\<lparr>get_nav := Inr (ds1 @ d # ds2)\<rparr>) w = main (e\<lparr>get_nav := Inr (ds1 @ ds2)\<rparr>) w"
    unfolding main_def main_steps_nav_cong [OF 1] ..
  from 1 2 3 show ?thesis by blast
qed

subsection \<open>The loop and its calls\<close>

lemma filter_none: "\<not> list_ex P xs \<Longrightarrow> filter P xs = []"
  by (induction xs) auto

lemma step_chain_trace:
  "\<exists>later. trace (snd (step_chain e c w)) = trace w @ later \<and> \<not> list_ex is_loop_call later"
  by (cases c)
    (auto simp: emit_def is_loop_call_def is_mkdir_def is_get_def split: sum.splits option.splits)

lemma advance_trace:
  "\<exists>later. trace (snd (advance e (cs, w) k)) = trace w @ later \<and> \<not> list_ex is_loop_call later"
proof (cases "cs = []")
  case True
  then show ?thesis by (simp add: advance_def)
next
  case False
  from step_chain_trace [of e "cs ! (k mod length cs)" w] False show ?thesis
    by (auto simp: advance_def split: prod.splits)
qed

lemma run_choices_trace:
  "\<exists>later. trace (snd (run_choices e ks (cs, w))) = trace w @ later \<and>
     \<not> list_ex is_loop_call later"
proof (induction ks arbitrary: cs w)
  case Nil
  show ?case by (simp add: run_choices_def)
next
  case (Cons k ks)
  obtain cs' w' where a: "advance e (cs, w) k = (cs', w')" by (cases "advance e (cs, w) k")
  from advance_trace [of e cs w k] a obtain l1 where
    l1: "trace w' = trace w @ l1" "\<not> list_ex is_loop_call l1" by auto
  from Cons [of cs' w'] obtain l2 where
    l2: "trace (snd (run_choices e ks (cs', w'))) = trace w' @ l2" "\<not> list_ex is_loop_call l2"
    by blast
  from a l1 l2 show ?case
    by (intro exI [of _ "l1 @ l2"]) (simp add: run_choices_def)
qed

lemma run_choices_loop_calls:
  "filter is_loop_call (trace (snd (run_choices e ks (cs, w)))) = filter is_loop_call (trace w)"
  using run_choices_trace [of e ks cs w] by (auto simp: filter_none)

lemma is_loop_call_simps:
  "is_loop_call (Mkdir d)" "is_loop_call (HttpGet u)"
  by (simp_all add: is_loop_call_def is_mkdir_def is_get_def)

lemma loop_body_ok:
  assumes "fs_mkdir e (dir_path nav url) = None"
  shows "\<exists>cs' w'.
           loop_body e nav i st url w =
             (Inr \<lparr>otherFiles = others_step nav (otherFiles st) url,
                   downloadPromises = cs' @ [Requested (mk_task nav url)]\<rparr>, w') \<and>
           map chain_task cs' = map chain_task (downloadPromises st) \<and>
           filter is_loop_call (trace w') = filter is_loop_call (trace w) @ loop_calls nav url"
proof -
  let ?w1 = "emit [Mkdir (dir_path nav url)] w"
  obtain cs' w2 where r: "run_choices e (during_mkdir e i) (downloadPromises st, ?w1) = (cs', w2)"
    by (cases "run_choices e (during_mkdir e i) (downloadPromises st, ?w1)")
  from run_choices_tasks [of e "during_mkdir e i" "downloadPromises st" ?w1] r
  have t: "map chain_task cs' = map chain_task (downloadPromises st)" by simp
  from run_choices_loop_calls [of e "during_mkdir e i" "downloadPromises st" ?w1] r
  have f: "filter is_loop_call (trace w2) = filter is_loop_call (trace w) @ [Mkdir (dir_path nav url)]"
    by (simp add: emit_def is_loop_call_simps)
  have "loop_body e nav i st url w =
        (Inr \<lparr>otherFiles = others_step nav (otherFiles st) url,
              downloadPromises = cs' @ [Requested (mk_task nav url)]\<rparr>,
         emit [HttpGet (url @ ''.md'')] w2)"
    using assms r by (simp add: loop_body_def others_step_def mk_task_def Let_def)
  moreover have "filter is_loop_call (trace (emit [HttpGet (url @ ''.md'')] w2)) =
      filter is_loop_call (trace w) @ loop_calls nav url"
    using f by (simp add: emit_def is_loop_call_simps loop_calls_def)
  ultimately show ?thesis using t by blast
qed

lemma loop_body_fail:
  assumes "fs_mkdir e (dir_path nav url) = Some msg"
  shows "\<exists>w'. loop_body e nav i st url w = (Inl (Rejected msg), w') \<and>
           filter is_loop_call (trace w') =
             filter is_loop_call (trace w) @ [Mkdir (dir_path nav url)]"
proof -
  let ?w1 = "emit [Mkdir (dir_path nav url)] w"
  obtain cs' w2 where r: "run_choices e (during_mkdir e i) (downloadPromises st, ?w1) = (cs', w2)"
    by (cases "run_choices e (during_mkdir e i) (downloadPromises st, ?w1)")
  from run_choices_loop_calls [of e "during_mkdir e i" "downloadPromises st" ?w1] r
  have f: "filter is_loop_call (trace w2) = filter is_loop_call (trace w) @ [Mkdir (dir_path nav url)]"
    by (simp add: emit_def is_loop_call_simps)
  have "loop_body e nav i st url w = (Inl (Rejected msg), w2)"
    using assms r by (simp add: loop_body_def Let_def)
  with f show ?thesis by blast
qed

lemma for_urls_ok:
  assumes "list_all (\<lambda>u. fs_mkdir e (dir_path nav u) = None) urls"
  shows "\<exists>cs' w'.
           for_urls e nav i urls st w =
             (Inr \<lparr>otherFiles = foldl (others_step nav) (otherFiles st) urls,
                   downloadPromises = cs'\<rparr>, w') \<and>
           map chain_task cs' = map chain_task (downloadPromises st) @ map (mk_task nav) urls \<and>
           filter is_loop_call (trace w') =
             filter is_loop_call (trace w) @ concat (map (loop_calls nav) urls)"
  using assms
proof (induction urls arbitrary: i st w)
  case Nil
  show ?case by (intro exI [of _ "downloadPromises st"] exI [of _ w]) simp
next
  case (Cons u urls)
  then have u: "fs_mkdir e (dir_path nav u) = None"
    and rest: "list_all (\<lambda>u. fs_mkdir e (dir_path nav u) = None) urls" by simp_all
  from loop_body_ok [OF u, of i st w] obtain cs1 w1 where
    b: "loop_body e nav i st u w =
          (Inr \<lparr>otherFiles = others_step nav (otherFiles st) u,
                downloadPromises = cs1 @ [Requested (mk_task nav u)]\<rparr>, w1)"
    and t1: "map chain_task cs1 = map chain_task (downloadPromises st)"
    and f1: "filter is_loop_call (trace w1) = filter is_loop_call (trace w) @ loop_calls nav u"
    by blast
  from Cons.IH [OF rest, of "Suc i" "\<lparr>otherFiles = others_step nav (otherFiles st) u,
                downloadPromises = cs1 @ [Requested (mk_task nav u)]\<rparr>" w1]
  obtain cs' w' where
    r: "for_urls e nav (Suc i) urls \<lparr>otherFiles = others_step nav (otherFiles st) u,
                downloadPromises = cs1 @ [Requested (mk_task nav u)]\<rparr> w1 =
          (Inr \<lparr>otherFiles = foldl (others_step nav) (others_step nav (otherFiles st) u) urls,
                downloadPromises = cs'\<rparr>, w')"
    and t: "map chain_task cs' =
          map chain_task (cs1 @ [Requested (mk_task nav u)]) @ map (mk_task nav) urls"
    and f: "filter is_loop_call (trace w') =
          filter is_loop_call (trace w1) @ concat (map (loop_calls nav) urls)"
    by auto
  from b r have "for_urls e nav i (u # urls) st w =
      (Inr \<lparr>otherFiles = foldl (others_step nav) (otherFiles st) (u # urls),
            downloadPromises = cs'\<rparr>, w')" by simp
  moreover from t t1 have "map chain_task cs' =
      map chain_task (downloadPromises st) @ map (mk_task nav) (u # urls)" by simp
  moreover from f f1 have "filter is_loop_call (trace w') =
      filter is_loop_call (trace w) @ concat (map (loop_calls nav) (u # urls))" by simp
  ultimately show ?case by blast
qed

lemma for_urls_fail:
  assumes "\<not> list_all (\<lambda>u. fs_mkdir e (dir_path nav u) = None) urls"
  shows "\<exists>k msg w'. k < length urls \<and>
           list_all (\<lambda>u. fs_mkdir e (dir_path nav u) = None) (take k urls) \<and>
           fs_mkdir e (dir_path nav (urls ! k)) = Some msg \<and>
           for_urls e nav i urls st w = (Inl (Rejected msg), w') \<and>
           filter is_loop_call (trace w') =
             filter is_loop_call (trace w) @ concat (map (loop_calls nav) (take k urls))
               @ [Mkdir (dir_path nav (urls ! k))]"
  using assms
proof (induction urls arbitrary: i st w)
  case Nil
  then show ?case by simp
next
  case (Cons u urls)
  show ?case
  proof (cases "fs_mkdir e (dir_path nav u)")
    case (Some msg)
    from loop_body_fail [OF Some, of i st w] obtain w' where
      "loop_body e nav i st u w = (Inl (Rejected msg), w')"
      "filter is_loop_call (trace w') = filter is_loop_call (trace w) @ [Mkdir (dir_path nav u)]"
      by blast
    with Some show ?thesis
      by (intro exI [of _ 0] exI [of _ msg] exI [of _ w']) simp
  next
    case None
    with Cons.prems have rest: "\<not> list_all (\<lambda>u. fs_mkdir e (dir_path nav u) = None) urls"
      by simp
    from loop_body_ok [OF None, of i st w] obtain cs1 w1 where
      b: "loop_body e nav i st u w =
          (Inr \<lparr>otherFiles = others_step nav (otherFiles st) u,
                downloadPromises = cs1 @ [Requested (mk_task nav u)]\<rparr>, w1)"
      and f1: "filter is_loop_call (trace w1) = filter is_loop_call (trace w) @ loop_calls nav u"
      by blast
    from Cons.IH [OF rest, of "Suc i" "\<lparr>otherFiles = others_step nav (otherFiles st) u,
                downloadPromises = cs1 @ [Requested (mk_task nav u)]\<rparr>" w1]
    obtain k msg w' where k: "k < length urls"
      "list_all (\<lambda>u. fs_mkdir e (dir_path nav u) = None) (take k urls)"
      "fs_mkdir e (dir_path nav (urls ! k)) = Some msg"
      "for_urls e nav (Suc i) urls \<lparr>otherFiles = others_step nav (otherFiles st) u,
                downloadPromises = cs1 @ [Requested (mk_task nav u)]\<rparr> w1
         = (Inl (Rejected msg), w')"
      "filter is_loop_call (trace w') =
         filter is_loop_call (trace w1) @ concat (map (loop_calls nav) (take k urls))
           @ [Mkdir (dir_path nav (urls ! k))]"
      by blast
    with None b f1 show ?thesis
      by (intro exI [of _ "Suc k"] exI [of _ msg] exI [of _ w']) simp
  qed
qed

text \<open>The chains issue no \<^verbatim>\<open>mkdir\<close> and no request.\<close>

lemma promise_all_trace:
  "\<exists>later. trace (promise_all e cs w) = trace w @ later \<and> \<not> list_ex is_loop_call later"
  unfolding promise_all_def by (rule run_choices_trace)

lemma downloadAndSaveDocs_ok:
  assumes "list_all (\<lambda>u. fs_mkdir e (dir_path nav u) = None) urls"
  shows "\<exists>w'. downloadAndSaveDocs e urls nav w = (Inr (foldl (others_step nav) [] urls), w')"
  using for_urls_ok [OF assms, of 0 "\<lparr>otherFiles = [], downloadPromises = []\<rparr>" w]
  by (auto simp: downloadAndSaveDocs_def)

lemma downloadAndSaveDocs_fail:
  assumes "\<not> list_all (\<lambda>u. fs_mkdir e (dir_path nav u) = None) urls"
  shows "\<exists>err w'. downloadAndSaveDocs e urls nav w = (Inl err, w')"
  using for_urls_fail [OF assms, of 0 "\<lparr>otherFiles = [], downloadPromises = []\<rparr>" w]
  by (auto simp: downloadAndSaveDocs_def)

lemma downloadAndSaveDocs_returns:
  assumes "downloadAndSaveDocs e urls nav w = (Inr others, w')"
  shows "list_all (\<lambda>u. fs_mkdir e (dir_path nav u) = None) urls"
  using assms downloadAndSaveDocs_fail [of e nav urls w] by auto

lemma downloadAndSaveDocs_others:
  assumes "downloadAndSaveDocs e urls nav w = (Inr others, w')"
  shows "others = foldl (others_step nav) [] urls"
  using downloadAndSaveDocs_ok [OF downloadAndSaveDocs_returns [OF assms], of w] assms by auto

lemma downloadAndSaveDocs_fail_world:
  assumes "\<not> list_all (\<lambda>u. fs_mkdir e (dir_path nav u) = None) urls"
  shows "snd (downloadAndSaveDocs e urls nav w) =
         snd (for_urls e nav 0 urls \<lparr>otherFiles = [], downloadPromises = []\<rparr> w)"
  using for_urls_fail [OF assms, of 0 "\<lparr>otherFiles = [], downloadPromises = []\<rparr>" w]
  by (auto simp: downloadAndSaveDocs_def)

lemma loop_call_split: "list_ex is_loop_call xs = (list_ex is_mkdir xs \<or> list_ex is_get xs)"
  by (induction xs) (auto simp: is_loop_call_def)

text \<open>
  Claim C4, as amended. The loop creates the directory of a URL, awaits it, and
  issues the request for that URL, before it turns to the next URL: its calls are
  \<^verbatim>\<open>mkdir\<close>, \<^verbatim>\<open>GET\<close>, \<^verbatim>\<open>mkdir\<close>, \<^verbatim>\<open>GET\<close>, ... in the order of the URLs, and end with the first
  \<^verbatim>\<open>mkdir\<close> that is rejected (at index \<open>k\<close>), if any. So the directories are created one at
  a time, and each request comes after the \<^verbatim>\<open>mkdir\<close> of its own URL, but before the
  \<^verbatim>\<open>mkdir\<close> of every later URL. What follows the loop creates no directory and issues no
  request.
\<close>

theorem loop_alternates_mkdir_and_get:
  "\<exists>k later.
     k \<le> length urls \<and>
     (k = length urls) = list_all (\<lambda>u. fs_mkdir e (dir_path nav u) = None) urls \<and>
     list_all (\<lambda>u. fs_mkdir e (dir_path nav u) = None) (take k urls) \<and>
     \<not> (k < length urls \<and> fs_mkdir e (dir_path nav (urls ! k)) = None) \<and>
     filter is_loop_call (trace (snd (for_urls e nav i urls st w))) =
       filter is_loop_call (trace w) @ concat (map (loop_calls nav) (take k urls))
         @ (if k < length urls then [Mkdir (dir_path nav (urls ! k))] else []) \<and>
     trace (snd (downloadAndSaveDocs e urls nav w)) =
       trace (snd (for_urls e nav 0 urls \<lparr>otherFiles = [], downloadPromises = []\<rparr> w)) @ later \<and>
     \<not> list_ex is_mkdir later \<and> \<not> list_ex is_get later"
proof (cases "list_all (\<lambda>u. fs_mkdir e (dir_path nav u) = None) urls")
  case True
  from for_urls_ok [OF True, of i st w] obtain cs' w' where
    a: "for_urls e nav i urls st w =
          (Inr \<lparr>otherFiles = foldl (others_step nav) (otherFiles st) urls,
                downloadPromises = cs'\<rparr>, w')"
       "filter is_loop_call (trace w') =
          filter is_loop_call (trace w) @ concat (map (loop_calls nav) urls)"
    by blast
  from for_urls_ok [OF True, of 0 "\<lparr>otherFiles = [], downloadPromises = []\<rparr>" w]
  obtain cs0 w0 where
    b: "for_urls e nav 0 urls \<lparr>otherFiles = [], downloadPromises = []\<rparr> w =
          (Inr \<lparr>otherFiles = foldl (others_step nav) [] urls, downloadPromises = cs0\<rparr>, w0)"
    by auto
  from promise_all_trace [of e cs0 w0] obtain later where
    later: "trace (promise_all e cs0 w0) = trace w0 @ later" "\<not> list_ex is_loop_call later"
    by blast
  show ?thesis
    using True a b later
    by (intro exI [of _ "length urls"] exI [of _ later])
      (simp add: downloadAndSaveDocs_def loop_call_split)
next
  case False
  from for_urls_fail [OF False, of i st w] obtain k msg w' where k: "k < length urls"
    "list_all (\<lambda>u. fs_mkdir e (dir_path nav u) = None) (take k urls)"
    "fs_mkdir e (dir_path nav (urls ! k)) = Some msg"
    "for_urls e nav i urls st w = (Inl (Rejected msg), w')"
    "filter is_loop_call (trace w') =
       filter is_loop_call (trace w) @ concat (map (loop_calls nav) (take k urls))
         @ [Mkdir (dir_path nav (urls ! k))]"
    by blast
  show ?thesis
    using False k
    by (intro exI [of _ k] exI [of _ "[]"]) (simp add: downloadAndSaveDocs_fail_world)
qed

text \<open>
  Claim C8. In an iteration for a URL that matches no \<^verbatim>\<open>href\<close> of the navigation, the
  entry \<^verbatim>\<open>{slug, title}\<close> with both fields the URL's last segment is appended exactly when
  no entry has that slug yet. After the loop the slugs of \<^verbatim>\<open>otherFiles\<close> are the last
  segments of the URLs sent to \<^verbatim>\<open>others\<close>, each once, in the order of their first
  occurrences; every title is its slug; every unmatched URL is among them. The index that
  \<^verbatim>\<open>generateReadme\<close> builds from this list, and writes, is the index of the empty list
  followed by the section \<^verbatim>\<open>Others\<close>, which shows each of these names as link text and as
  file name. The URLs sent to \<^verbatim>\<open>others\<close> are the unmatched ones whenever no category has
  an empty slug.
\<close>

theorem others_list_first_occurrence:
  "(\<not> matches nav url \<and> fs_mkdir e (dir_path nav url) = None \<longrightarrow>
      (\<exists>st' w1. loop_body e nav i st url w = (Inr st', w1) \<and>
         otherFiles st' =
           (if basename url \<in> set (map other_slug (otherFiles st)) then otherFiles st
            else otherFiles st @ [\<lparr>other_slug = basename url, other_title = basename url\<rparr>]))) \<and>
   (downloadAndSaveDocs e urls nav w = (Inr others, w') \<longrightarrow>
      map other_slug others =
        first_occurrences (map basename (filter (\<lambda>u. falsy (find_category nav u)) urls)) \<and>
      distinct (map other_slug others) \<and>
      map other_title others = map other_slug others \<and>
      set (map basename (filter (\<lambda>u. \<not> matches nav u) urls)) \<subseteq> set (map other_slug others) \<and>
      readme_content stamp nav others =
        readme_content stamp nav []
        @ (if others = [] then []
           else ''## Others\<newline>\<newline>''
             @ concat (map (\<lambda>s. ''- ['' @ s @ ''](./docs/others/'' @ s @ ''.md)\<newline>'')
                 (map other_slug others))
             @ ''\<newline>'') \<and>
      (fs_writeFile e ROOT_README_PATH = None \<longrightarrow>
         files (snd (generateReadme e nav others w')) ROOT_README_PATH =
           Some (readme_content (now e) nav others))) \<and>
   (list_all (\<lambda>c. cat_slug c \<noteq> []) nav \<longrightarrow>
      filter (\<lambda>u. falsy (find_category nav u)) urls = filter (\<lambda>u. \<not> matches nav u) urls)"
proof (intro conjI impI)
  assume a: "\<not> matches nav url \<and> fs_mkdir e (dir_path nav url) = None"
  then have "others_step nav (otherFiles st) url = push_other (otherFiles st) (basename url)"
    by (simp add: others_step_def unmatched_falsy)
  with a loop_body_ok [of e nav url i st w]
  show "\<exists>st' w1. loop_body e nav i st url w = (Inr st', w1) \<and>
         otherFiles st' =
           (if basename url \<in> set (map other_slug (otherFiles st)) then otherFiles st
            else otherFiles st @ [\<lparr>other_slug = basename url, other_title = basename url\<rparr>])"
    by (auto simp: push_other_alt)
next
  assume "list_all (\<lambda>c. cat_slug c \<noteq> []) nav"
  then show "filter (\<lambda>u. falsy (find_category nav u)) urls = filter (\<lambda>u. \<not> matches nav u) urls"
    by (simp add: matched_not_falsy)
next
  assume r: "downloadAndSaveDocs e urls nav w = (Inr others, w')"
  note others = downloadAndSaveDocs_others [OF r]
  show slugs: "map other_slug others =
        first_occurrences (map basename (filter (\<lambda>u. falsy (find_category nav u)) urls))"
    unfolding others using others_slugs [of nav "[]" urls] by simp
  then show "distinct (map other_slug others)"
    by (simp only: first_occurrences_distinct)
  have "list_all (\<lambda>f. other_title f = other_slug f) others"
    unfolding others by (rule others_titles) simp
  then show titles: "map other_title others = map other_slug others"
    by (induction others) auto
  show "set (map basename (filter (\<lambda>u. \<not> matches nav u) urls)) \<subseteq> set (map other_slug others)"
    unfolding slugs first_occurrences_set using unmatched_falsy by auto
  have "readme_content stamp nav others =
        readme_content stamp nav [] @ spec_others_section others"
    by (simp add: readme_content_sections spec_others_section_def)
  then show "readme_content stamp nav others =
        readme_content stamp nav []
        @ (if others = [] then []
           else ''## Others\<newline>\<newline>''
             @ concat (map (\<lambda>s. ''- ['' @ s @ ''](./docs/others/'' @ s @ ''.md)\<newline>'')
                 (map other_slug others))
             @ ''\<newline>'')"
    using others_lines [OF titles, of "''- [''" "''](./docs/others/''" "''.md)\<newline>''"]
    by (simp add: spec_others_section_def)
  {
    assume "fs_writeFile e ROOT_README_PATH = None"
    then show "files (snd (generateReadme e nav others w')) ROOT_README_PATH =
           Some (readme_content (now e) nav others)"
      by (simp add: generateReadme_def emit_def Let_def)
  }
qed

subsection \<open>What the chains leave behind\<close>


lemma trace_emit: "trace (emit es w) = trace w @ es"
  by (simp add: emit_def)

















subsection \<open>The end of the downloads\<close>











subsection \<open>The run as a whole\<close>














subsection \<open>Two runs against the same remote\<close>













section \<open>The small site, run\<close>

lemma example_structure_extracted: "navigation_structure example_divs = example_structure"
  by code_simp



lemma example_paths:
  "map (file_path example_structure) example_urls =
     [''docs/getting-started/overview.md'', ''docs/getting-started/quickstart.md'',
      ''docs/others/setup.md'', ''docs/others/setup.md'']"
  by code_simp



text \<open>
  Claim C4 as the specification states it fails on two URLs: the request for the first
  document is issued before the directory of the second is created.
\<close>

theorem gets_precede_later_mkdirs_counterexample:
  "take 4 (trace (snd (downloadAndSaveDocs example_env [example_overview, example_a_setup]
      example_structure example_world))) =
     [Mkdir ''docs/getting-started'',
      HttpGet ''https://docs.anthropic.com/en/docs/claude-code/overview.md'',
      Mkdir ''docs/others'',
      HttpGet ''https://docs.anthropic.com/en/docs/claude-code/a/setup.md''] \<and>
   \<not> no_get_before_last_mkdir (trace (snd (downloadAndSaveDocs example_env
      [example_overview, example_a_setup] example_structure example_world)))"
  by code_simp

text \<open>
  A download can have written its file when a later \<^verbatim>\<open>mkdir\<close> is rejected and the function
  throws: the loop has issued its request and awaited another \<^verbatim>\<open>mkdir\<close> since.
\<close>

lemma file_written_before_mkdir_rejected:
  "fst (downloadAndSaveDocs example_env_denied example_urls example_structure example_world) =
     Inl (Rejected ''EACCES'') \<and>
   files (snd (downloadAndSaveDocs example_env_denied example_urls example_structure
     example_world)) ''docs/getting-started/overview.md'' = Some ''# Overview''"
  by code_simp




text \<open>
  Claim C1 on a group titled \<^verbatim>\<open>!!!\<close>. The extractor keeps the group, with the empty slug.
  The URL of its link matches the \<^verbatim>\<open>href\<close> of that category, and yet its document goes to
  \<^verbatim>\<open>docs/others/overview.md\<close> and the URL is recorded in \<^verbatim>\<open>otherFiles\<close>, while the index
  links it below the category's own (empty) slug.
\<close>

theorem empty_slug_category_goes_to_others:
  "navigation_structure [example_symbols] = [example_symbols_category] \<and>
   matches [example_symbols_category] example_overview \<and>
   file_path [example_symbols_category] example_overview = ''docs/others/overview.md'' \<and>
   fst (downloadAndSaveDocs example_env [example_overview] [example_symbols_category] example_world)
     = Inr [\<lparr>other_slug = ''overview'', other_title = ''overview''\<rparr>] \<and>
   readme_content [] [example_symbols_category]
       [\<lparr>other_slug = ''overview'', other_title = ''overview''\<rparr>]
     = readme_header []
       @ ''## !!!\<newline>\<newline>- [Overview](./docs//overview.md)\<newline>\<newline>''
       @ ''## Others\<newline>\<newline>- [overview](./docs/others/overview.md)\<newline>\<newline>''"
  by code_simp

text \<open>
  Claim C10 on a URL that two categories list, the first of them with the empty slug: the
  scan stops at the first category, and the document goes to \<^verbatim>\<open>docs/others\<close>, not to the
  directory of the first category (nor to that of the second).
\<close>

theorem first_match_with_empty_slug_goes_to_others:
  "find_category (example_symbols_category # example_structure) example_overview = Some [] \<and>
   find_category example_structure example_overview = Some ''getting-started'' \<and>
   file_path (example_symbols_category # example_structure) example_overview
     = ''docs/others/overview.md''"
  by code_simp

theorem sitemap_fetcher_keeps_prefixed_locs_witness:
  "get_sitemap example_env = Inr (Some example_sitemap) \<and>
   list_all well_formed_url example_sitemap \<and>
   fst (fetchAllUrlsFromSitemap example_env example_world) = Inr example_urls"
proof -
  have h1: "get_sitemap example_env = Inr (Some example_sitemap)"
    by (simp add: example_env_def)
  have h2: "list_all well_formed_url example_sitemap" by code_simp
  have v: "filter (prefix URL_PREFIX) (loc_values example_sitemap) = example_urls" by code_simp
  from sitemap_fetcher_keeps_prefixed_locs [OF h1 h2, of example_world]
  have "fst (fetchAllUrlsFromSitemap example_env example_world) =
        Inr (filter (prefix URL_PREFIX) (loc_values example_sitemap))" by blast
  with v h1 h2 show ?thesis by (simp only: simp_thms)
qed

theorem untitled_group_contributes_nothing_witness:
  "trim (concat (sidebar_titles example_untitled)) = [] \<and>
   navigation_structure (take 1 example_divs @ example_untitled # []) =
     navigation_structure (take 1 example_divs @ []) \<and>
   main (example_env\<lparr>get_nav := Inr (take 1 example_divs @ example_untitled # [])\<rparr>) example_world =
     main (example_env\<lparr>get_nav := Inr (take 1 example_divs @ [])\<rparr>) example_world"
proof -
  have h: "trim (concat (sidebar_titles example_untitled)) = []" by code_simp
  from untitled_group_contributes_nothing [OF h, of "take 1 example_divs" "[]" example_env example_world]
    h show ?thesis by blast
qed

theorem readme_lists_categories_then_others_witness:
  "readme_content ''Thu, 14 Aug 2025 07:56:03 GMT'' example_structure
     [\<lparr>other_slug = ''setup'', other_title = ''setup''\<rparr>] =
   readme_header ''Thu, 14 Aug 2025 07:56:03 GMT''
   @ ''## Getting started\<newline>\<newline>- [Overview](./docs/getting-started/overview.md)\<newline>- [Quickstart](./docs/getting-started/quickstart.md)\<newline>\<newline>''
   @ ''## Others\<newline>\<newline>- [setup](./docs/others/setup.md)\<newline>\<newline>''"
proof -
  have c: "concat (map spec_category_section example_structure) =
      ''## Getting started\<newline>\<newline>- [Overview](./docs/getting-started/overview.md)\<newline>- [Quickstart](./docs/getting-started/quickstart.md)\<newline>\<newline>''"
    by code_simp
  have o: "spec_others_section [\<lparr>other_slug = ''setup'', other_title = ''setup''\<rparr>] =
      ''## Others\<newline>\<newline>- [setup](./docs/others/setup.md)\<newline>\<newline>''"
    by code_simp
  from readme_lists_categories_then_others [of "''Thu, 14 Aug 2025 07:56:03 GMT''"
      example_structure "[\<lparr>other_slug = ''setup'', other_title = ''setup''\<rparr>]"]
  have "readme_content ''Thu, 14 Aug 2025 07:56:03 GMT'' example_structure
     [\<lparr>other_slug = ''setup'', other_title = ''setup''\<rparr>] =
     readme_header ''Thu, 14 Aug 2025 07:56:03 GMT''
     @ concat (map spec_category_section example_structure)
     @ spec_others_section [\<lparr>other_slug = ''setup'', other_title = ''setup''\<rparr>]"
    by blast
  then show ?thesis unfolding c o .
qed

theorem loop_alternates_mkdir_and_get_witness:
  "(\<exists>k later.
     k \<le> length example_urls \<and>
     (k = length example_urls) =
       list_all (\<lambda>u. fs_mkdir example_env (dir_path example_structure u) = None) example_urls \<and>
     list_all (\<lambda>u. fs_mkdir example_env (dir_path example_structure u) = None)
       (take k example_urls) \<and>
     \<not> (k < length example_urls \<and>
        fs_mkdir example_env (dir_path example_structure (example_urls ! k)) = None) \<and>
     filter is_loop_call (trace (snd (for_urls example_env example_structure 0 example_urls
            \<lparr>otherFiles = [], downloadPromises = []\<rparr> example_world))) =
       filter is_loop_call (trace example_world)
       @ concat (map (loop_calls example_structure) (take k example_urls))
       @ (if k < length example_urls
          then [Mkdir (dir_path example_structure (example_urls ! k))] else []) \<and>
     trace (snd (downloadAndSaveDocs example_env example_urls example_structure example_world)) =
       trace (snd (for_urls example_env example_structure 0 example_urls
                \<lparr>otherFiles = [], downloadPromises = []\<rparr> example_world)) @ later \<and>
     \<not> list_ex is_mkdir later \<and> \<not> list_ex is_get later) \<and>
   concat (map (loop_calls example_structure) example_urls) =
     [Mkdir ''docs/getting-started'',
      HttpGet ''https://docs.anthropic.com/en/docs/claude-code/overview.md'',
      Mkdir ''docs/getting-started'',
      HttpGet ''https://docs.anthropic.com/en/docs/claude-code/quickstart.md'',
      Mkdir ''docs/others'',
      HttpGet ''https://docs.anthropic.com/en/docs/claude-code/a/setup.md'',
      Mkdir ''docs/others'',
      HttpGet ''https://docs.anthropic.com/en/docs/claude-code/b/setup.md'']"
proof -
  have c: "concat (map (loop_calls example_structure) example_urls) =
     [Mkdir ''docs/getting-started'',
      HttpGet ''https://docs.anthropic.com/en/docs/claude-code/overview.md'',
      Mkdir ''docs/getting-started'',
      HttpGet ''https://docs.anthropic.com/en/docs/claude-code/quickstart.md'',
      Mkdir ''docs/others'',
      HttpGet ''https://docs.anthropic.com/en/docs/claude-code/a/setup.md'',
      Mkdir ''docs/others'',
      HttpGet ''https://docs.anthropic.com/en/docs/claude-code/b/setup.md'']"
    by code_simp
  from loop_alternates_mkdir_and_get [where urls = example_urls and e = example_env
      and nav = example_structure and i = 0
      and st = "\<lparr>otherFiles = [], downloadPromises = []\<rparr>" and w = example_world] c
  show ?thesis by (rule conjI)
qed

lemma example_mkdirs:
  "list_all (\<lambda>u. fs_mkdir example_env (dir_path example_structure u) = None) example_urls"
  by (simp add: example_env_def list_all_iff)

theorem others_list_first_occurrence_witness:
  "\<not> matches example_structure example_a_setup \<and>
   fs_mkdir example_env (dir_path example_structure example_a_setup) = None \<and>
   (\<exists>st' w1. loop_body example_env example_structure 2 \<lparr>otherFiles = [], downloadPromises = []\<rparr>
                example_a_setup example_world = (Inr st', w1) \<and>
      otherFiles st' = [\<lparr>other_slug = ''setup'', other_title = ''setup''\<rparr>]) \<and>
   fst (downloadAndSaveDocs example_env example_urls example_structure example_world) =
     Inr [\<lparr>other_slug = ''setup'', other_title = ''setup''\<rparr>] \<and>
   first_occurrences
     (map basename (filter (\<lambda>u. falsy (find_category example_structure u)) example_urls)) =
     [''setup''] \<and>
   readme_content [] example_structure [\<lparr>other_slug = ''setup'', other_title = ''setup''\<rparr>] =
     readme_content [] example_structure []
     @ ''## Others\<newline>\<newline>- [setup](./docs/others/setup.md)\<newline>\<newline>'' \<and>
   fs_writeFile example_env ROOT_README_PATH = None \<and>
   files (snd (generateReadme example_env example_structure
                 [\<lparr>other_slug = ''setup'', other_title = ''setup''\<rparr>]
                 (snd (downloadAndSaveDocs example_env example_urls example_structure
                         example_world)))) ROOT_README_PATH =
     Some (readme_content (now example_env) example_structure
             [\<lparr>other_slug = ''setup'', other_title = ''setup''\<rparr>]) \<and>
   list_all (\<lambda>c. cat_slug c \<noteq> []) example_structure \<and>
   filter (\<lambda>u. falsy (find_category example_structure u)) example_urls =
     filter (\<lambda>u. \<not> matches example_structure u) example_urls"
proof -
  let ?st = "\<lparr>otherFiles = [], downloadPromises = []\<rparr>"
  let ?others = "[\<lparr>other_slug = ''setup'', other_title = ''setup''\<rparr>]"
  let ?w' = "snd (downloadAndSaveDocs example_env example_urls example_structure example_world)"
  have h1: "\<not> matches example_structure example_a_setup" by code_simp
  have h2: "fs_mkdir example_env (dir_path example_structure example_a_setup) = None"
    by (simp add: example_env_def)
  have h4: "fs_writeFile example_env ROOT_README_PATH = None"
    by (simp add: example_env_def)
  have b: "basename example_a_setup = ''setup''" by code_simp
  have "foldl (others_step example_structure) [] example_urls = ?others" by code_simp
  with downloadAndSaveDocs_ok [OF example_mkdirs, of example_world]
  have r: "fst (downloadAndSaveDocs example_env example_urls example_structure example_world) =
      Inr ?others"
    by auto
  then have r': "downloadAndSaveDocs example_env example_urls example_structure example_world =
      (Inr ?others, ?w')"
    by (metis prod.collapse)
  have h3: "list_all (\<lambda>c. cat_slug c \<noteq> []) example_structure"
    by (simp add: example_structure_def)
  note T = others_list_first_occurrence [where nav = example_structure
      and url = example_a_setup and e = example_env and i = 2 and st = ?st
      and w = example_world and urls = example_urls and others = ?others and w' = ?w'
      and stamp = "[]"]
  from T h1 h2 b have 1: "\<exists>st' w1. loop_body example_env example_structure 2 ?st
                example_a_setup example_world = (Inr st', w1) \<and> otherFiles st' = ?others"
    by simp
  from T r' have 2: "first_occurrences
     (map basename (filter (\<lambda>u. falsy (find_category example_structure u)) example_urls)) =
     [''setup'']"
    by simp
  from T r' have 4: "readme_content [] example_structure ?others =
     readme_content [] example_structure []
     @ ''## Others\<newline>\<newline>- [setup](./docs/others/setup.md)\<newline>\<newline>''"
    by simp
  from T r' h4 have 5: "files (snd (generateReadme example_env example_structure ?others ?w'))
      ROOT_README_PATH = Some (readme_content (now example_env) example_structure ?others)"
    by blast
  from T h3 have 3: "filter (\<lambda>u. falsy (find_category example_structure u)) example_urls =
     filter (\<lambda>u. \<not> matches example_structure u) example_urls"
    by blast
  from h1 h2 1 r 2 4 h4 5 h3 3 show ?thesis by blast
qed





end
